theory Spec2Isabelle
  imports Main "HOL-Library.FSet" "HOL-Library.Sublist"
begin

section \<open>Errors\<close>

text \<open>
  The C++ sources index vectors with \<open>operator[]\<close> and guard some steps with
  \<open>assert\<close>. Reading or writing a vector outside its bounds is undefined behaviour
  and a failed assertion aborts; both are made explicit as error values, so that every
  function of the model says where the source leaves its contract. Object indices,
  predicate symbols and slot ids are C++ \<open>int\<close>s on which the code never computes:
  they are modelled as \<open>int\<close>, and as \<open>nat\<close> where the code uses them as positions.
\<close>

datatype error = OutOfBounds | AssertionFailed

section \<open>The relational data model\<close>

text \<open>
  Modelled from the spec: the classes \<open>Relation\<close>, \<open>DBState\<close>, \<open>Argument\<close>, \<open>Atom\<close>,
  \<open>ActionSchema\<close> and \<open>LiftedOperatorId\<close> are used by the sources but declared in headers
  outside them. A ground atom is a tuple of object indices; a relation is a predicate
  symbol with an unordered, duplicate-free set of ground atoms (\<open>std::unordered_set\<close>);
  a state is a vector of relations indexed by predicate symbol and a vector of nullary
  facts. The static information has the shape of a state. The field \<open>constant\<close> of an
  argument is written \<open>is_constant\<close>; fields read through a getter (\<open>get_index\<close>,
  \<open>is_ground\<close>, \<open>get_precondition\<close>, ...) are named after the getter.
\<close>

type_synonym GroundAtom = "int list"

record Relation =
  predicate_symbol :: int
  tuples :: "GroundAtom fset"

record DBState =
  relations :: "Relation list"
  nullary_atoms :: "bool list"

record Argument =
  index :: int
  is_constant :: bool

record Atom =
  predicate_symbol :: int
  arguments :: "Argument list"
  negated :: bool

record ActionSchema =
  action_index :: int
  is_ground :: bool
  precondition :: "Atom list"
  effects :: "Atom list"
  positive_nullary_precond :: "bool list"
  negative_nullary_precond :: "bool list"
  positive_nullary_effects :: "bool list"
  negative_nullary_effects :: "bool list"

record LiftedOperatorId =
  op_index :: int
  op_instantiation :: "int list"

text \<open>
  Modelled from the spec: \<open>DBState::get_tuples_of_relation\<close> is declared with the class;
  it reads \<open>relations[i].tuples\<close>.
\<close>

definition get_tuples_of_relation :: "DBState \<Rightarrow> int \<Rightarrow> error + GroundAtom fset" where
  "get_tuples_of_relation s i =
     (if 0 \<le> i \<and> nat i < length (relations s)
      then Inr (Relation.tuples (relations s ! nat i)) else Inl OutOfBounds)"

text \<open>
  The members of \<open>SuccessorGenerator\<close> that the functions below touch: the static
  information, read-only after construction, and \<open>ground_atom\<close>, the buffer that
  \<open>tuple_to_atom\<close> overwrites at every call and returns by reference.
\<close>

record SuccessorGenerator =
  static_information :: DBState
  ground_atom :: GroundAtom

section \<open>Tables and the semi-join\<close>

text \<open>
  Modelled from the spec: the class \<open>Table\<close> (database/table.h) is used by the sources
  but declared outside them. A table is a list of rows \<open>tuples\<close> and a list of column tags
  \<open>tuple_index\<close>, one \<open>int\<close> per column: a variable column carries its slot id
  (numbered from 0), a constant column carries a constant marker, which is a negative
  number so that it differs from every slot id.
\<close>

record Table =
  tuples :: "int list list"
  tuple_index :: "int list"

text \<open>
  Modelled from the spec: \<open>Table::index_is_variable\<close> is declared with the class; a
  column is a variable column when its tag is a slot id, that is, not negative.
\<close>

definition index_is_variable :: "Table \<Rightarrow> nat \<Rightarrow> bool" where
  "index_is_variable t j = (0 \<le> tuple_index t ! j)"

text \<open>The first loop nest of \<open>semi_join\<close>: the pairs of column positions with equal tags.\<close>

definition compute_matches :: "Table \<Rightarrow> Table \<Rightarrow> (nat \<times> nat) list" where
  "compute_matches t1 t2 =
     [(i, j). i \<leftarrow> [0 ..< length (tuple_index t1)],
              j \<leftarrow> [0 ..< length (tuple_index t2)],
              tuple_index t1 ! i = tuple_index t2 ! j]"

text \<open>
  The innermost loop: compare two rows on the matching pairs, stopping at the first
  pair that differs. A pair that points outside either row is an out-of-bounds read.
\<close>

fun tuple_matches :: "(nat \<times> nat) list \<Rightarrow> int list \<Rightarrow> int list \<Rightarrow> error + bool" where
  "tuple_matches [] tuple_t1 tuple_t2 = Inr True"
| "tuple_matches (m # ms) tuple_t1 tuple_t2 =
     (if fst m < length tuple_t1 \<and> snd m < length tuple_t2 then
        (if tuple_t1 ! fst m \<noteq> tuple_t2 ! snd m then Inr False
         else tuple_matches ms tuple_t1 tuple_t2)
      else Inl OutOfBounds)"

text \<open>The loop over the rows of \<open>t2\<close>, left at the first row that matches.\<close>

fun has_match :: "(nat \<times> nat) list \<Rightarrow> int list \<Rightarrow> int list list \<Rightarrow> error + bool" where
  "has_match ms tuple_t1 [] = Inr False"
| "has_match ms tuple_t1 (tuple_t2 # rest) =
     (case tuple_matches ms tuple_t1 tuple_t2 of
        Inl e \<Rightarrow> Inl e
      | Inr found \<Rightarrow> if found then Inr True else has_match ms tuple_t1 rest)"

text \<open>The loop over the rows of \<open>t1\<close>, collecting \<open>new_tuples\<close> in order.\<close>

fun join_rows :: "(nat \<times> nat) list \<Rightarrow> int list list \<Rightarrow> int list list \<Rightarrow> error + int list list" where
  "join_rows ms [] rows2 = Inr []"
| "join_rows ms (tuple_t1 # rest) rows2 =
     (case has_match ms tuple_t1 rows2 of
        Inl e \<Rightarrow> Inl e
      | Inr keep \<Rightarrow>
          (case join_rows ms rest rows2 of
             Inl e \<Rightarrow> Inl e
           | Inr new_tuples \<Rightarrow> Inr (if keep then tuple_t1 # new_tuples else new_tuples)))"

text \<open>
  \<open>semi_join\<close> updates \<open>t1\<close> in place and never writes to \<open>t2\<close>; the model returns the
  new value of \<open>t1\<close>.
\<close>

definition semi_join :: "Table \<Rightarrow> Table \<Rightarrow> error + Table" where
  "semi_join t1 t2 =
     (let matches = compute_matches t1 t2 in
      if matches = [] then Inr t1
      else (case join_rows matches (tuples t1) (tuples t2) of
              Inl e \<Rightarrow> Inl e
            | Inr new_tuples \<Rightarrow> Inr (t1\<lparr>tuples := new_tuples\<rparr>)))"

text \<open>Two rows agree on the matching pairs: every pair lies inside both rows and
  the two entries are equal.\<close>

definition rows_agree :: "(nat \<times> nat) list \<Rightarrow> int list \<Rightarrow> int list \<Rightarrow> bool" where
  "rows_agree ms r1 r2 =
     list_all (\<lambda>m. fst m < length r1 \<and> snd m < length r2 \<and> r1 ! fst m = r2 ! snd m) ms"

text \<open>The table invariant of the data model: every row is as long as the column list.\<close>

definition table_wf :: "Table \<Rightarrow> bool" where
  "table_wf t = list_all (\<lambda>r. length r = length (tuple_index t)) (tuples t)"

section \<open>The successor generator\<close>

subsection \<open>Canonical order of an instantiation row\<close>

text \<open>
  \<open>compute_map_indices_to_table_positions\<close> appends to its two output vectors, for
  every variable column in ascending position, the slot id and the position.
\<close>

definition compute_map_indices_to_table_positions ::
  "Table \<Rightarrow> int list \<Rightarrow> int list \<Rightarrow> int list \<times> int list" where
  "compute_map_indices_to_table_positions instantiations free_var_indices map_indices_to_position =
     fold (\<lambda>j (fvi, mp).
             if index_is_variable instantiations j
             then (fvi @ [tuple_index instantiations ! j], mp @ [int j])
             else (fvi, mp))
          [0 ..< length (tuple_index instantiations)]
          (free_var_indices, map_indices_to_position)"

text \<open>
  \<open>order_tuple_by_free_variable_order\<close> runs \<open>i\<close> over the positions of
  \<open>free_var_indices\<close> and writes \<open>ordered_tuple[free_var_indices[i]] =
  tuple_with_const[map_indices_to_position[i]]\<close>; each of the three subscripts can leave
  its vector.
\<close>

fun order_loop ::
  "nat list \<Rightarrow> int list \<Rightarrow> int list \<Rightarrow> int list \<Rightarrow> int list \<Rightarrow> error + int list" where
  "order_loop [] free_var_indices map_indices_to_position tuple_with_const ordered_tuple =
     Inr ordered_tuple"
| "order_loop (i # rest) free_var_indices map_indices_to_position tuple_with_const ordered_tuple =
     (if i < length map_indices_to_position \<and> i < length free_var_indices then
        (let p = map_indices_to_position ! i; s = free_var_indices ! i in
         if 0 \<le> p \<and> nat p < length tuple_with_const \<and> 0 \<le> s \<and> nat s < length ordered_tuple
         then order_loop rest free_var_indices map_indices_to_position tuple_with_const
                (ordered_tuple[nat s := tuple_with_const ! nat p])
         else Inl OutOfBounds)
      else Inl OutOfBounds)"

definition order_tuple_by_free_variable_order ::
  "int list \<Rightarrow> int list \<Rightarrow> int list \<Rightarrow> int list \<Rightarrow> error + int list" where
  "order_tuple_by_free_variable_order free_var_indices map_indices_to_position
       tuple_with_const ordered_tuple =
     order_loop [0 ..< length free_var_indices] free_var_indices map_indices_to_position
       tuple_with_const ordered_tuple"

text \<open>
  What \<open>get_applicable_actions\<close> does with one row of the instantiation table: the two
  maps are computed from empty vectors, \<open>ordered_tuple\<close> starts as a vector of zeros
  with one entry per variable column, and the row is written into it.
\<close>

definition ordered_tuple_of :: "Table \<Rightarrow> int list \<Rightarrow> error + int list" where
  "ordered_tuple_of instantiations tuple_with_const =
     (case compute_map_indices_to_table_positions instantiations [] [] of
        (free_var_indices, map_indices_to_position) \<Rightarrow>
          order_tuple_by_free_variable_order free_var_indices map_indices_to_position
            tuple_with_const (replicate (length free_var_indices) 0))"

fun ordered_tuples_of :: "Table \<Rightarrow> int list list \<Rightarrow> error + int list list" where
  "ordered_tuples_of instantiations [] = Inr []"
| "ordered_tuples_of instantiations (tuple_with_const # rest) =
     (case ordered_tuple_of instantiations tuple_with_const of
        Inl e \<Rightarrow> Inl e
      | Inr ordered_tuple \<Rightarrow>
          (case ordered_tuples_of instantiations rest of
             Inl e \<Rightarrow> Inl e
           | Inr others \<Rightarrow> Inr (ordered_tuple # others)))"

subsection \<open>Applicability\<close>

text \<open>
  \<open>is_trivially_inapplicable\<close>: for each position of the positive nullary
  preconditions, the two disjuncts are evaluated left to right with short-circuit.
\<close>

definition positive_violated :: "nat \<Rightarrow> bool list \<Rightarrow> bool list \<Rightarrow> error + bool" where
  "positive_violated i positive_precond atoms =
     (if positive_precond ! i
      then (if i < length atoms then Inr (\<not> atoms ! i) else Inl OutOfBounds)
      else Inr False)"

definition negative_violated :: "nat \<Rightarrow> bool list \<Rightarrow> bool list \<Rightarrow> error + bool" where
  "negative_violated i negative_precond atoms =
     (if i < length negative_precond then
        (if negative_precond ! i
         then (if i < length atoms then Inr (atoms ! i) else Inl OutOfBounds)
         else Inr False)
      else Inl OutOfBounds)"

fun trivially_inapplicable_loop ::
  "nat list \<Rightarrow> bool list \<Rightarrow> bool list \<Rightarrow> bool list \<Rightarrow> error + bool" where
  "trivially_inapplicable_loop [] positive_precond negative_precond atoms = Inr False"
| "trivially_inapplicable_loop (i # rest) positive_precond negative_precond atoms =
     (case positive_violated i positive_precond atoms of
        Inl e \<Rightarrow> Inl e
      | Inr pv \<Rightarrow>
          if pv then Inr True
          else (case negative_violated i negative_precond atoms of
                  Inl e \<Rightarrow> Inl e
                | Inr nv \<Rightarrow>
                    if nv then Inr True
                    else trivially_inapplicable_loop rest positive_precond negative_precond atoms))"

definition is_trivially_inapplicable :: "DBState \<Rightarrow> ActionSchema \<Rightarrow> error + bool" where
  "is_trivially_inapplicable state action =
     trivially_inapplicable_loop [0 ..< length (positive_nullary_precond action)]
       (positive_nullary_precond action) (negative_nullary_precond action)
       (nullary_atoms state)"

text \<open>
  The tuple of a ground atom: every argument is asserted to be a constant and its index
  is pushed. The same loop opens \<open>is_ground_action_applicable\<close> and
  \<open>apply_ground_action_effects\<close>.
\<close>

fun constant_arguments :: "Argument list \<Rightarrow> error + GroundAtom" where
  "constant_arguments [] = Inr []"
| "constant_arguments (a # rest) =
     (if is_constant a then
        (case constant_arguments rest of Inl e \<Rightarrow> Inl e | Inr ga \<Rightarrow> Inr (index a # ga))
      else Inl AssertionFailed)"

text \<open>
  The body of the loop of \<open>is_ground_action_applicable\<close> for one precondition:
  \<open>Inr False\<close> is the source's \<open>return false\<close>, \<open>Inr True\<close> goes on to the next
  precondition.
\<close>

definition precondition_passes :: "DBState \<Rightarrow> DBState \<Rightarrow> Atom \<Rightarrow> error + bool" where
  "precondition_passes static state precond =
     (case constant_arguments (arguments precond) of
        Inl e \<Rightarrow> Inl e
      | Inr tuple \<Rightarrow>
          (case get_tuples_of_relation state (Atom.predicate_symbol precond) of
             Inl e \<Rightarrow> Inl e
           | Inr tuples_in_relation \<Rightarrow>
               (case get_tuples_of_relation static (Atom.predicate_symbol precond) of
                  Inl e \<Rightarrow> Inl e
                | Inr static_tuples \<Rightarrow>
                    if tuples_in_relation \<noteq> {||} then
                      (if negated precond
                       then (if tuple |\<in>| tuples_in_relation then Inr False else Inr True)
                       else (if tuple |\<notin>| tuples_in_relation then Inr False else Inr True))
                    else if static_tuples \<noteq> {||} then
                      (if negated precond
                       then (if tuple |\<in>| static_tuples then Inr False else Inr True)
                       else (if tuple |\<notin>| static_tuples then Inr False else Inr True))
                    else Inr False)))"

fun preconditions_pass :: "DBState \<Rightarrow> DBState \<Rightarrow> Atom list \<Rightarrow> error + bool" where
  "preconditions_pass static state [] = Inr True"
| "preconditions_pass static state (precond # rest) =
     (case precondition_passes static state precond of
        Inl e \<Rightarrow> Inl e
      | Inr ok \<Rightarrow> if ok then preconditions_pass static state rest else Inr False)"

definition is_ground_action_applicable ::
  "SuccessorGenerator \<Rightarrow> ActionSchema \<Rightarrow> DBState \<Rightarrow> error + bool" where
  "is_ground_action_applicable sg action state =
     preconditions_pass (static_information sg) state (precondition action)"

text \<open>
  Modelled from the spec: \<open>instantiate\<close> is a virtual member implemented outside the
  sources. It is a parameter of the model: a query over the static information, the
  action schema and the state, which may fail.

  \<open>get_applicable_actions\<close> appends to \<open>applicable_operators\<close> schema by schema.
\<close>

type_synonym instantiate_fn = "DBState \<Rightarrow> ActionSchema \<Rightarrow> DBState \<Rightarrow> error + Table"

fun applicable_loop ::
  "SuccessorGenerator \<Rightarrow> instantiate_fn \<Rightarrow> ActionSchema list \<Rightarrow> DBState \<Rightarrow>
     LiftedOperatorId list \<Rightarrow> error + LiftedOperatorId list" where
  "applicable_loop sg instantiate [] state applicable_operators = Inr applicable_operators"
| "applicable_loop sg instantiate (action # rest) state applicable_operators =
     (case is_trivially_inapplicable state action of
        Inl e \<Rightarrow> Inl e
      | Inr trivial \<Rightarrow>
          if trivial then applicable_loop sg instantiate rest state applicable_operators
          else if is_ground action then
            (case is_ground_action_applicable sg action state of
               Inl e \<Rightarrow> Inl e
             | Inr applicable \<Rightarrow>
                 applicable_loop sg instantiate rest state
                   (if applicable
                    then applicable_operators @
                           [\<lparr>op_index = action_index action, op_instantiation = []\<rparr>]
                    else applicable_operators))
          else
            (case instantiate (static_information sg) action state of
               Inl e \<Rightarrow> Inl e
             | Inr instantiations \<Rightarrow>
                 if Table.tuples instantiations = []
                 then applicable_loop sg instantiate rest state applicable_operators
                 else (case ordered_tuples_of instantiations (Table.tuples instantiations) of
                         Inl e \<Rightarrow> Inl e
                       | Inr ordered \<Rightarrow>
                           applicable_loop sg instantiate rest state
                             (applicable_operators @
                                map (\<lambda>t. \<lparr>op_index = action_index action, op_instantiation = t\<rparr>)
                                    ordered))))"

definition get_applicable_actions ::
  "SuccessorGenerator \<Rightarrow> instantiate_fn \<Rightarrow> ActionSchema list \<Rightarrow> DBState \<Rightarrow>
     error + LiftedOperatorId list" where
  "get_applicable_actions sg instantiate actions state =
     applicable_loop sg instantiate actions state []"

subsection \<open>Successor states\<close>

text \<open>
  One loop of \<open>apply_nullary_effects\<close>: where the effect vector has a bit set, the
  same position of \<open>new_nullary_atoms\<close> is written.
\<close>

fun nullary_loop :: "nat list \<Rightarrow> bool list \<Rightarrow> bool \<Rightarrow> bool list \<Rightarrow> error + bool list" where
  "nullary_loop [] nullary_effects v new_nullary_atoms = Inr new_nullary_atoms"
| "nullary_loop (i # rest) nullary_effects v new_nullary_atoms =
     (if nullary_effects ! i then
        (if i < length new_nullary_atoms
         then nullary_loop rest nullary_effects v (new_nullary_atoms[i := v])
         else Inl OutOfBounds)
      else nullary_loop rest nullary_effects v new_nullary_atoms)"

definition apply_nullary_effects :: "ActionSchema \<Rightarrow> bool list \<Rightarrow> error + bool list" where
  "apply_nullary_effects action new_nullary_atoms =
     (case nullary_loop [0 ..< length (negative_nullary_effects action)]
             (negative_nullary_effects action) False new_nullary_atoms of
        Inl e \<Rightarrow> Inl e
      | Inr cleared \<Rightarrow>
          nullary_loop [0 ..< length (positive_nullary_effects action)]
            (positive_nullary_effects action) True cleared)"

text \<open>
  The relation that an effect writes to: \<open>new_relation[eff.predicate_symbol]\<close>, with
  the assertion that the relation stored there carries that predicate symbol.
\<close>

definition relation_of_effect :: "Atom \<Rightarrow> Relation list \<Rightarrow> error + Relation" where
  "relation_of_effect eff new_relation =
     (if 0 \<le> Atom.predicate_symbol eff \<and> nat (Atom.predicate_symbol eff) < length new_relation then
        (if Atom.predicate_symbol eff
              = Relation.predicate_symbol (new_relation ! nat (Atom.predicate_symbol eff))
         then Inr (new_relation ! nat (Atom.predicate_symbol eff))
         else Inl AssertionFailed)
      else Inl OutOfBounds)"

definition apply_ground_effect :: "Atom \<Rightarrow> Relation list \<Rightarrow> error + Relation list" where
  "apply_ground_effect eff new_relation =
     (case constant_arguments (arguments eff) of
        Inl e \<Rightarrow> Inl e
      | Inr ga \<Rightarrow>
          (case relation_of_effect eff new_relation of
             Inl e \<Rightarrow> Inl e
           | Inr r \<Rightarrow>
               if negated eff
               then Inr (new_relation[nat (Atom.predicate_symbol eff) :=
                           r\<lparr>Relation.tuples := Relation.tuples r |-| {|ga|}\<rparr>])
               else Inr (new_relation[nat (Atom.predicate_symbol eff) :=
                           r\<lparr>Relation.tuples := finsert ga (Relation.tuples r)\<rparr>])))"

fun ground_effects_loop :: "Atom list \<Rightarrow> Relation list \<Rightarrow> error + Relation list" where
  "ground_effects_loop [] new_relation = Inr new_relation"
| "ground_effects_loop (eff # rest) new_relation =
     (case apply_ground_effect eff new_relation of
        Inl e \<Rightarrow> Inl e
      | Inr updated \<Rightarrow> ground_effects_loop rest updated)"

definition apply_ground_action_effects ::
  "ActionSchema \<Rightarrow> Relation list \<Rightarrow> error + Relation list" where
  "apply_ground_action_effects action new_relation =
     ground_effects_loop (effects action) new_relation"

text \<open>
  \<open>tuple_to_atom\<close> clears the buffer \<open>ground_atom\<close> of the generator, fills it from
  the effect's arguments (a variable reads \<open>tuple[index]\<close>, a constant gives its
  index), asserts that no entry is \<open>-1\<close> and returns a reference to the buffer.
\<close>

fun resolve_arguments :: "int list \<Rightarrow> Argument list \<Rightarrow> error + GroundAtom" where
  "resolve_arguments tuple [] = Inr []"
| "resolve_arguments tuple (a # rest) =
     (if \<not> is_constant a then
        (if 0 \<le> index a \<and> nat (index a) < length tuple then
           (case resolve_arguments tuple rest of
              Inl e \<Rightarrow> Inl e
            | Inr ga \<Rightarrow> Inr (tuple ! nat (index a) # ga))
         else Inl OutOfBounds)
      else
        (case resolve_arguments tuple rest of
           Inl e \<Rightarrow> Inl e
         | Inr ga \<Rightarrow> Inr (index a # ga)))"

definition tuple_to_atom :: "SuccessorGenerator \<Rightarrow> int list \<Rightarrow> Atom \<Rightarrow> error + SuccessorGenerator" where
  "tuple_to_atom sg tuple eff =
     (case resolve_arguments tuple (arguments eff) of
        Inl e \<Rightarrow> Inl e
      | Inr ga \<Rightarrow> if - 1 \<in> set ga then Inl AssertionFailed else Inr (sg\<lparr>ground_atom := ga\<rparr>))"

text \<open>
  The body of the loop of \<open>apply_lifted_action_effects\<close> for one effect; \<open>ga\<close> is
  the buffer of the generator after \<open>tuple_to_atom\<close>.
\<close>

definition apply_lifted_effect ::
  "int list \<Rightarrow> Atom \<Rightarrow> SuccessorGenerator \<times> Relation list \<Rightarrow>
     error + SuccessorGenerator \<times> Relation list" where
  "apply_lifted_effect tuple eff st =
     (case tuple_to_atom (fst st) tuple eff of
        Inl e \<Rightarrow> Inl e
      | Inr sg \<Rightarrow>
          (case relation_of_effect eff (snd st) of
             Inl e \<Rightarrow> Inl e
           | Inr r \<Rightarrow>
               if negated eff
               then Inr (sg, (snd st)[nat (Atom.predicate_symbol eff) :=
                           r\<lparr>Relation.tuples := Relation.tuples r |-| {|ground_atom sg|}\<rparr>])
               else if ground_atom sg |\<notin>| Relation.tuples r
               then Inr (sg, (snd st)[nat (Atom.predicate_symbol eff) :=
                           r\<lparr>Relation.tuples := finsert (ground_atom sg) (Relation.tuples r)\<rparr>])
               else Inr (sg, snd st)))"

fun lifted_effects_loop ::
  "int list \<Rightarrow> Atom list \<Rightarrow> SuccessorGenerator \<times> Relation list \<Rightarrow>
     error + SuccessorGenerator \<times> Relation list" where
  "lifted_effects_loop tuple [] st = Inr st"
| "lifted_effects_loop tuple (eff # rest) st =
     (case apply_lifted_effect tuple eff st of
        Inl e \<Rightarrow> Inl e
      | Inr st' \<Rightarrow> lifted_effects_loop tuple rest st')"

definition apply_lifted_action_effects ::
  "SuccessorGenerator \<Rightarrow> ActionSchema \<Rightarrow> int list \<Rightarrow> Relation list \<Rightarrow>
     error + SuccessorGenerator \<times> Relation list" where
  "apply_lifted_action_effects sg action tuple new_relation =
     lifted_effects_loop tuple (effects action) (sg, new_relation)"

text \<open>
  \<open>generate_successors\<close> takes the state by const reference, copies its two vectors,
  updates the copies and builds the new state from them. The only object of the caller
  that it writes to is the generator (its buffer), which is returned with the state.
\<close>

definition generate_successors ::
  "SuccessorGenerator \<Rightarrow> LiftedOperatorId \<Rightarrow> ActionSchema \<Rightarrow> DBState \<Rightarrow>
     error + DBState \<times> SuccessorGenerator" where
  "generate_successors sg op action state =
     (case apply_nullary_effects action (nullary_atoms state) of
        Inl e \<Rightarrow> Inl e
      | Inr new_nullary_atoms \<Rightarrow>
          if is_ground action then
            (case apply_ground_action_effects action (relations state) of
               Inl e \<Rightarrow> Inl e
             | Inr new_relation \<Rightarrow>
                 Inr (\<lparr>relations = new_relation, nullary_atoms = new_nullary_atoms\<rparr>, sg))
          else
            (case apply_lifted_action_effects sg action (op_instantiation op) (relations state) of
               Inl e \<Rightarrow> Inl e
             | Inr (sg', new_relation) \<Rightarrow>
                 Inr (\<lparr>relations = new_relation, nullary_atoms = new_nullary_atoms\<rparr>, sg')))"

text \<open>
  The contract of \<open>is_ground_action_applicable\<close>: every precondition of a ground action
  has constant arguments only, and its predicate symbol is a position of the relation
  vectors of the state and of the static information.
\<close>

definition ground_preconditions_defined :: "SuccessorGenerator \<Rightarrow> ActionSchema \<Rightarrow> DBState \<Rightarrow> bool" where
  "ground_preconditions_defined sg action state =
     list_all (\<lambda>precond.
         list_all is_constant (arguments precond) \<and>
         0 \<le> Atom.predicate_symbol precond \<and>
         nat (Atom.predicate_symbol precond) < length (relations state) \<and>
         nat (Atom.predicate_symbol precond) < length (relations (static_information sg)))
       (precondition action)"

section \<open>The heuristic factory\<close>

text \<open>
  \<open>HeuristicFactory::new_heuristic\<close> prints one line and returns a pointer to a new
  \<open>BlindHeuristic\<close>, a pointer to a new \<open>Goalcount\<close>, or \<open>nullptr\<close>. The model
  returns the printed line with the pointer. \<open>boost::iequals\<close> compares two strings
  character by character after upper-casing; \<open>to_upper\<close> gives the character code of
  the upper-cased character in the C locale.
\<close>

datatype Heuristic = BlindHeuristic | Goalcount

datatype Heuristic_ptr = nullptr | new Heuristic

definition to_upper :: "char \<Rightarrow> nat" where
  "to_upper c =
     (if 97 \<le> (of_char c :: nat) \<and> (of_char c :: nat) \<le> 122
      then of_char c - 32 else of_char c)"

fun iequals :: "string \<Rightarrow> string \<Rightarrow> bool" where
  "iequals [] [] = True"
| "iequals (x # xs) (y # ys) = (to_upper x = to_upper y \<and> iequals xs ys)"
| "iequals _ _ = False"

definition new_heuristic :: "string \<Rightarrow> string \<times> Heuristic_ptr" where
  "new_heuristic method =
     (''Creating search factory...'',
      if iequals method ''blind'' then new BlindHeuristic
      else if iequals method ''goalcount'' then new Goalcount
      else nullptr)"

text \<open>
  The spec's reading of a matching pair, for comparison with \<open>compute_matches\<close>: the
  pairs of column positions that are both variable columns and carry the same slot id.
\<close>

definition shared_variable_columns :: "Table \<Rightarrow> Table \<Rightarrow> (nat \<times> nat) list" where
  "shared_variable_columns t1 t2 =
     [(i, j). i \<leftarrow> [0 ..< length (tuple_index t1)],
              j \<leftarrow> [0 ..< length (tuple_index t2)],
              index_is_variable t1 i \<and> index_is_variable t2 j \<and>
              tuple_index t1 ! i = tuple_index t2 ! j]"

text \<open>
  A row of a join table assigns one value to each variable: columns that carry the same
  slot id hold the same entry.
\<close>

definition one_value_per_slot :: "Table \<Rightarrow> int list \<Rightarrow> bool" where
  "one_value_per_slot t row =
     list_all (\<lambda>p. list_all (\<lambda>p'.
         index_is_variable t p \<and> index_is_variable t p' \<and>
         tuple_index t ! p = tuple_index t ! p' \<longrightarrow> row ! p = row ! p')
       [0 ..< length (tuple_index t)]) [0 ..< length (tuple_index t)]"

text \<open>
  The contract of canonicalization on the table: every slot id of a variable column is a
  position of the binding, which has one entry per variable column.
\<close>

definition slots_covered :: "Table \<Rightarrow> bool" where
  "slots_covered t =
     list_all (\<lambda>p. index_is_variable t p \<longrightarrow>
                 nat (tuple_index t ! p)
                   < length (filter (index_is_variable t) [0 ..< length (tuple_index t)]))
       [0 ..< length (tuple_index t)]"



section \<open>Properties of the semi-join\<close>

lemma tuple_matches_agree:
  "tuple_matches ms r1 r2 = Inr b \<Longrightarrow> b = rows_agree ms r1 r2"
  by (induction ms) (auto simp: rows_agree_def split: if_splits)

lemma has_match_agree:
  "has_match ms r1 rows2 = Inr b \<Longrightarrow> b = (\<exists>r2 \<in> set rows2. rows_agree ms r1 r2)"
proof (induction rows2)
  case Nil
  then show ?case by simp
next
  case (Cons r2 rest)
  show ?case
  proof (cases "tuple_matches ms r1 r2")
    case (Inl e)
    with Cons.prems show ?thesis by simp
  next
    case (Inr found)
    then have f: "found = rows_agree ms r1 r2" by (rule tuple_matches_agree)
    show ?thesis
    proof (cases found)
      case True
      with Inr Cons.prems f show ?thesis by auto
    next
      case False
      with Inr Cons.prems have "has_match ms r1 rest = Inr b" by simp
      then have "b = (\<exists>r2 \<in> set rest. rows_agree ms r1 r2)" by (rule Cons.IH)
      with False f show ?thesis by simp
    qed
  qed
qed

lemma join_rows_filter:
  "join_rows ms rows1 rows2 = Inr new_tuples \<Longrightarrow>
     new_tuples = filter (\<lambda>r1. \<exists>r2 \<in> set rows2. rows_agree ms r1 r2) rows1"
proof (induction rows1 arbitrary: new_tuples)
  case Nil
  then show ?case by simp
next
  case (Cons r1 rest)
  from Cons.prems obtain keep nt where
    k: "has_match ms r1 rows2 = Inr keep" and
    n: "join_rows ms rest rows2 = Inr nt" and
    r: "new_tuples = (if keep then r1 # nt else nt)"
    by (auto split: sum.splits)
  from k have "keep = (\<exists>r2 \<in> set rows2. rows_agree ms r1 r2)" by (rule has_match_agree)
  moreover from n have "nt = filter (\<lambda>r1. \<exists>r2 \<in> set rows2. rows_agree ms r1 r2) rest"
    by (rule Cons.IH)
  ultimately show ?case using r by simp
qed

lemma semi_join_filter:
  assumes "compute_matches t1 t2 \<noteq> []" and "semi_join t1 t2 = Inr t1'"
  shows "t1' = t1\<lparr>tuples :=
           filter (\<lambda>r1. \<exists>r2 \<in> set (tuples t2). rows_agree (compute_matches t1 t2) r1 r2)
                  (tuples t1)\<rparr>"
  using assms
  by (auto simp: semi_join_def Let_def split: sum.splits dest: join_rows_filter)

lemma tuple_matches_defined:
  "\<forall>m \<in> set ms. fst m < length r1 \<and> snd m < length r2 \<Longrightarrow> \<exists>b. tuple_matches ms r1 r2 = Inr b"
  by (induction ms) auto

lemma has_match_defined:
  "\<forall>r2 \<in> set rows2. \<forall>m \<in> set ms. fst m < length r1 \<and> snd m < length r2 \<Longrightarrow>
     \<exists>b. has_match ms r1 rows2 = Inr b"
proof (induction rows2)
  case Nil
  then show ?case by auto
next
  case (Cons r2 rest)
  then have "\<exists>b. tuple_matches ms r1 r2 = Inr b"
    by (intro tuple_matches_defined) simp
  then obtain found where "tuple_matches ms r1 r2 = Inr found" ..
  moreover from Cons have "\<exists>b. has_match ms r1 rest = Inr b" by simp
  ultimately show ?case by auto
qed

lemma join_rows_defined:
  "\<forall>r1 \<in> set rows1. \<forall>r2 \<in> set rows2. \<forall>m \<in> set ms. fst m < length r1 \<and> snd m < length r2 \<Longrightarrow>
     \<exists>new_tuples. join_rows ms rows1 rows2 = Inr new_tuples"
proof (induction rows1)
  case Nil
  then show ?case by simp
next
  case (Cons r1 rest)
  then have "\<exists>b. has_match ms r1 rows2 = Inr b"
    by (intro has_match_defined) simp
  then obtain keep where "has_match ms r1 rows2 = Inr keep" ..
  moreover from Cons obtain nt where "join_rows ms rest rows2 = Inr nt" by auto
  ultimately show ?case by simp
qed

lemma semi_join_defined:
  assumes "table_wf t1" and "table_wf t2"
  shows "\<exists>t1'. semi_join t1 t2 = Inr t1'"
proof -
  have "\<forall>r1 \<in> set (tuples t1). \<forall>r2 \<in> set (tuples t2). \<forall>m \<in> set (compute_matches t1 t2).
          fst m < length r1 \<and> snd m < length r2"
    using assms by (auto simp: table_wf_def list_all_iff compute_matches_def)
  then obtain nt where "join_rows (compute_matches t1 t2) (tuples t1) (tuples t2) = Inr nt"
    using join_rows_defined by blast
  then show ?thesis by (simp add: semi_join_def Let_def)
qed

lemma count_list_filter:
  "count_list (filter P xs) r = (if P r then count_list xs r else 0)"
  by (induction xs) auto

lemma compute_matches_empty_iff:
  "compute_matches t1 t2 = [] \<longleftrightarrow> set (tuple_index t1) \<inter> set (tuple_index t2) = {}"
proof
  assume e: "compute_matches t1 t2 = []"
  show "set (tuple_index t1) \<inter> set (tuple_index t2) = {}"
  proof (rule ccontr)
    assume "set (tuple_index t1) \<inter> set (tuple_index t2) \<noteq> {}"
    then obtain x where "x \<in> set (tuple_index t1)" "x \<in> set (tuple_index t2)" by blast
    then obtain i j where "i < length (tuple_index t1)" "tuple_index t1 ! i = x"
      "j < length (tuple_index t2)" "tuple_index t2 ! j = x"
      unfolding in_set_conv_nth by blast
    then have "(i, j) \<in> set (compute_matches t1 t2)"
      by (auto simp: compute_matches_def)
    with e show False by simp
  qed
next
  assume d: "set (tuple_index t1) \<inter> set (tuple_index t2) = {}"
  show "compute_matches t1 t2 = []"
  proof (rule ccontr)
    assume "compute_matches t1 t2 \<noteq> []"
    then obtain m ms where "compute_matches t1 t2 = m # ms" by (auto simp: neq_Nil_conv)
    then have "(fst m, snd m) \<in> set (compute_matches t1 t2)" by simp
    then have "fst m < length (tuple_index t1)" "snd m < length (tuple_index t2)"
      "tuple_index t1 ! fst m = tuple_index t2 ! snd m"
      by (auto simp: compute_matches_def)
    then have "tuple_index t1 ! fst m \<in> set (tuple_index t1) \<inter> set (tuple_index t2)"
      by (metis IntI nth_mem)
    with d show False by simp
  qed
qed

text \<open>
  C8 (as stated, refuted). Two tables that share no variable column but share a
  constant marker have a matching pair, and \<open>semi_join\<close> filters \<open>t1\<close>: with an empty
  \<open>t2\<close> it removes every row.
\<close>

theorem semi_join_shared_constant_filters:
  "shared_variable_columns \<lparr>tuples = [[4, 1], [4, 2]], tuple_index = [- 5, 0]\<rparr>
                           \<lparr>tuples = [], tuple_index = [- 5, 1]\<rparr> = [] \<and>
   semi_join \<lparr>tuples = [[4, 1], [4, 2]], tuple_index = [- 5, 0]\<rparr>
             \<lparr>tuples = [], tuple_index = [- 5, 1]\<rparr>
     = Inr \<lparr>tuples = [], tuple_index = [- 5, 0]\<rparr>"
  by (simp add: shared_variable_columns_def index_is_variable_def semi_join_def
        compute_matches_def upt_rec)

text \<open>
  C8 (amended). The match list is empty exactly when no column of \<open>t1\<close> carries the
  same tag as a column of \<open>t2\<close>, neither a slot id nor a constant marker; in that case
  \<open>semi_join\<close> returns and \<open>t1\<close> is exactly what it was: no row is filtered out and no
  product is formed.
\<close>

theorem semi_join_no_match_unchanged:
  "(compute_matches t1 t2 = [] \<longleftrightarrow> set (tuple_index t1) \<inter> set (tuple_index t2) = {}) \<and>
   (set (tuple_index t1) \<inter> set (tuple_index t2) = {} \<longrightarrow> semi_join t1 t2 = Inr t1)"
  using compute_matches_empty_iff [of t1 t2] by (simp add: semi_join_def)

theorem semi_join_no_match_unchanged_witness:
  "set (tuple_index \<lparr>tuples = [[1, 2], [3, 4]], tuple_index = [- 5, 1]\<rparr>)
     \<inter> set (tuple_index \<lparr>tuples = [], tuple_index = [- 6, 2]\<rparr>) = {} \<and>
   semi_join \<lparr>tuples = [[1, 2], [3, 4]], tuple_index = [- 5, 1]\<rparr>
             \<lparr>tuples = [], tuple_index = [- 6, 2]\<rparr>
     = Inr \<lparr>tuples = [[1, 2], [3, 4]], tuple_index = [- 5, 1]\<rparr>"
  using semi_join_no_match_unchanged [of "\<lparr>tuples = [[1, 2], [3, 4]], tuple_index = [- 5, 1]\<rparr>"
                                         "\<lparr>tuples = [], tuple_index = [- 6, 2]\<rparr>"]
  by simp

text \<open>
  C2. For tables with at least one matching column pair, whenever \<open>semi_join\<close>
  returns, every row remaining in \<open>t1\<close> has a row of \<open>t2\<close> equal to it on all matching
  columns, and every row of the original \<open>t1\<close> that is no longer there has no such row
  in \<open>t2\<close>. It returns whenever the rows of both tables are as long as their column
  lists.
\<close>

theorem semi_join_rows_have_witness:
  assumes "compute_matches t1 t2 \<noteq> []"
  shows "(table_wf t1 \<and> table_wf t2 \<longrightarrow> (\<exists>t1'. semi_join t1 t2 = Inr t1')) \<and>
         (\<forall>t1'. semi_join t1 t2 = Inr t1' \<longrightarrow>
            (\<forall>r1 \<in> set (tuples t1').
               \<exists>r2 \<in> set (tuples t2). rows_agree (compute_matches t1 t2) r1 r2) \<and>
            (\<forall>r1 \<in> set (tuples t1). r1 \<notin> set (tuples t1') \<longrightarrow>
               \<not> (\<exists>r2 \<in> set (tuples t2). rows_agree (compute_matches t1 t2) r1 r2)))"
proof -
  have "(\<forall>r1 \<in> set (tuples t1').
           \<exists>r2 \<in> set (tuples t2). rows_agree (compute_matches t1 t2) r1 r2) \<and>
        (\<forall>r1 \<in> set (tuples t1). r1 \<notin> set (tuples t1') \<longrightarrow>
           \<not> (\<exists>r2 \<in> set (tuples t2). rows_agree (compute_matches t1 t2) r1 r2))"
    if s: "semi_join t1 t2 = Inr t1'" for t1'
  proof -
    from semi_join_filter [OF assms s]
    have "tuples t1' = filter (\<lambda>r1. \<exists>r2 \<in> set (tuples t2).
                         rows_agree (compute_matches t1 t2) r1 r2) (tuples t1)"
      by simp
    then show ?thesis by auto
  qed
  then show ?thesis using semi_join_defined by blast
qed

theorem semi_join_rows_have_witness_witness:
  "compute_matches \<lparr>tuples = [[1, 2], [3, 4]], tuple_index = [0, 1]\<rparr>
                   \<lparr>tuples = [[2, 9]], tuple_index = [1, 5]\<rparr> \<noteq> [] \<and>
   table_wf \<lparr>tuples = [[1, 2], [3, 4]], tuple_index = [0, 1]\<rparr> \<and>
   table_wf \<lparr>tuples = [[2, 9]], tuple_index = [1, 5]\<rparr> \<and>
   semi_join \<lparr>tuples = [[1, 2], [3, 4]], tuple_index = [0, 1]\<rparr>
             \<lparr>tuples = [[2, 9]], tuple_index = [1, 5]\<rparr>
     = Inr \<lparr>tuples = [[1, 2]], tuple_index = [0, 1]\<rparr>"
proof -
  have m: "compute_matches \<lparr>tuples = [[1, 2], [3, 4]], tuple_index = [0, 1]\<rparr>
                           \<lparr>tuples = [[2, 9]], tuple_index = [1, 5]\<rparr> = [(1, 0)]"
    by (simp add: compute_matches_def upt_rec)
  then have h1: "compute_matches \<lparr>tuples = [[1, 2], [3, 4]], tuple_index = [0, 1]\<rparr>
                                 \<lparr>tuples = [[2, 9]], tuple_index = [1, 5]\<rparr> \<noteq> []"
    by simp
  have h2: "table_wf \<lparr>tuples = [[1, 2], [3, 4]], tuple_index = [0, 1]\<rparr>"
    by (simp add: table_wf_def)
  have h3: "table_wf \<lparr>tuples = [[2, 9]], tuple_index = [1, 5]\<rparr>"
    by (simp add: table_wf_def)
  show ?thesis
    using h1 h2 h3 semi_join_rows_have_witness [OF h1]
    by (simp add: semi_join_def m)
qed

text \<open>
  C10. For tables with at least one matching column pair, whenever \<open>semi_join\<close>
  returns, the rows of \<open>t1\<close> after the call are a subsequence of its rows before: the
  order is kept, a row that survives occurs as often as it did before, no new row
  appears, and the columns are untouched. It returns whenever the rows of both tables
  are as long as their column lists.
\<close>

theorem semi_join_rows_subsequence:
  assumes "compute_matches t1 t2 \<noteq> []"
  shows "(table_wf t1 \<and> table_wf t2 \<longrightarrow> (\<exists>t1'. semi_join t1 t2 = Inr t1')) \<and>
         (\<forall>t1'. semi_join t1 t2 = Inr t1' \<longrightarrow>
            subseq (tuples t1') (tuples t1) \<and>
            (\<forall>r \<in> set (tuples t1'). count_list (tuples t1') r = count_list (tuples t1) r) \<and>
            set (tuples t1') \<subseteq> set (tuples t1) \<and>
            tuple_index t1' = tuple_index t1)"
proof -
  let ?P = "\<lambda>r1. \<exists>r2 \<in> set (tuples t2). rows_agree (compute_matches t1 t2) r1 r2"
  have "subseq (tuples t1') (tuples t1) \<and>
        (\<forall>r \<in> set (tuples t1'). count_list (tuples t1') r = count_list (tuples t1) r) \<and>
        set (tuples t1') \<subseteq> set (tuples t1) \<and>
        tuple_index t1' = tuple_index t1"
    if s: "semi_join t1 t2 = Inr t1'" for t1'
  proof -
    from semi_join_filter [OF assms s]
    have t: "tuples t1' = filter ?P (tuples t1)" and i: "tuple_index t1' = tuple_index t1"
      by simp_all
    have "subseq (tuples t1') (tuples t1)" unfolding t by (rule subseq_filter_left)
    moreover have "\<forall>r \<in> set (tuples t1'). count_list (tuples t1') r = count_list (tuples t1) r"
      unfolding t by (simp add: count_list_filter)
    moreover have "set (tuples t1') \<subseteq> set (tuples t1)" unfolding t by auto
    ultimately show ?thesis using i by blast
  qed
  then show ?thesis using semi_join_defined by blast
qed

theorem semi_join_rows_subsequence_witness:
  "compute_matches \<lparr>tuples = [[3, 4], [1, 2], [3, 4]], tuple_index = [0, 1]\<rparr>
                   \<lparr>tuples = [[4], [4]], tuple_index = [1]\<rparr> \<noteq> [] \<and>
   table_wf \<lparr>tuples = [[3, 4], [1, 2], [3, 4]], tuple_index = [0, 1]\<rparr> \<and>
   table_wf \<lparr>tuples = [[4], [4]], tuple_index = [1]\<rparr> \<and>
   semi_join \<lparr>tuples = [[3, 4], [1, 2], [3, 4]], tuple_index = [0, 1]\<rparr>
             \<lparr>tuples = [[4], [4]], tuple_index = [1]\<rparr>
     = Inr \<lparr>tuples = [[3, 4], [3, 4]], tuple_index = [0, 1]\<rparr>"
proof -
  have m: "compute_matches \<lparr>tuples = [[3, 4], [1, 2], [3, 4]], tuple_index = [0, 1]\<rparr>
                           \<lparr>tuples = [[4], [4]], tuple_index = [1]\<rparr> = [(1, 0)]"
    by (simp add: compute_matches_def upt_rec)
  then have h1: "compute_matches \<lparr>tuples = [[3, 4], [1, 2], [3, 4]], tuple_index = [0, 1]\<rparr>
                                 \<lparr>tuples = [[4], [4]], tuple_index = [1]\<rparr> \<noteq> []"
    by simp
  have h2: "table_wf \<lparr>tuples = [[3, 4], [1, 2], [3, 4]], tuple_index = [0, 1]\<rparr>"
    by (simp add: table_wf_def)
  have h3: "table_wf \<lparr>tuples = [[4], [4]], tuple_index = [1]\<rparr>"
    by (simp add: table_wf_def)
  show ?thesis
    using h1 h2 h3 semi_join_rows_subsequence [OF h1]
    by (simp add: semi_join_def m)
qed

text \<open>
  C3 (as stated, refuted). Two columns that are both tagged as constants, with the same
  constant marker, do form a matching pair: the code compares the tags only.
\<close>

theorem semi_join_constant_columns_match:
  "\<not> index_is_variable \<lparr>tuples = [[4]], tuple_index = [- 5]\<rparr> 0 \<and>
   \<not> index_is_variable \<lparr>tuples = [[4], [4]], tuple_index = [- 5]\<rparr> 0 \<and>
   compute_matches \<lparr>tuples = [[4]], tuple_index = [- 5]\<rparr>
                   \<lparr>tuples = [[4], [4]], tuple_index = [- 5]\<rparr> = [(0, 0)]"
  by (simp add: index_is_variable_def compute_matches_def)

text \<open>
  C3 (amended). A pair of column positions \<open>(i, j)\<close> is a matching pair if and only if
  both positions are columns of their tables and the two columns carry the same tag:
  the same variable slot id or the same constant marker. A variable column and a
  constant column never form a matching pair.
\<close>

theorem semi_join_matching_pairs:
  "((i, j) \<in> set (compute_matches t1 t2) \<longleftrightarrow>
      i < length (tuple_index t1) \<and> j < length (tuple_index t2) \<and>
      tuple_index t1 ! i = tuple_index t2 ! j) \<and>
   ((i, j) \<in> set (compute_matches t1 t2) \<longrightarrow>
      index_is_variable t1 i = index_is_variable t2 j)"
  by (auto simp: compute_matches_def index_is_variable_def)

theorem semi_join_matching_pairs_witness:
  "(1, 0) \<in> set (compute_matches \<lparr>tuples = [], tuple_index = [- 1, 3]\<rparr>
                                   \<lparr>tuples = [], tuple_index = [3, 0]\<rparr>) \<and>
   index_is_variable \<lparr>tuples = [], tuple_index = [- 1, 3]\<rparr> 1 =
   index_is_variable \<lparr>tuples = [], tuple_index = [3, 0]\<rparr> 0"
  using semi_join_matching_pairs [of 1 0 "\<lparr>tuples = [], tuple_index = [- 1, 3]\<rparr>"
                                          "\<lparr>tuples = [], tuple_index = [3, 0]\<rparr>"]
  by simp

section \<open>Applicability of ground actions\<close>

lemma constant_arguments_defined:
  "list_all is_constant args \<Longrightarrow> \<exists>ga. constant_arguments args = Inr ga"
  by (induction args) auto

lemma precondition_passes_both_empty:
  assumes "get_tuples_of_relation state (Atom.predicate_symbol precond) = Inr {||}"
    and "get_tuples_of_relation static (Atom.predicate_symbol precond) = Inr {||}"
  shows "precondition_passes static state precond \<noteq> Inr True"
  using assms by (simp add: precondition_passes_def split: sum.splits)

lemma preconditions_pass_not_true:
  "precond \<in> set preconds \<Longrightarrow> precondition_passes static state precond \<noteq> Inr True \<Longrightarrow>
     preconditions_pass static state preconds \<noteq> Inr True"
  by (induction preconds) (auto split: sum.splits)

lemma precondition_passes_defined:
  assumes "list_all is_constant (arguments precond)"
    and "0 \<le> Atom.predicate_symbol precond"
    and "nat (Atom.predicate_symbol precond) < length (relations state)"
    and "nat (Atom.predicate_symbol precond) < length (relations static)"
  shows "\<exists>b. precondition_passes static state precond = Inr b"
proof -
  from assms(1) obtain ga where "constant_arguments (arguments precond) = Inr ga"
    using constant_arguments_defined by blast
  with assms(2-4) show ?thesis
    by (auto simp: precondition_passes_def get_tuples_of_relation_def)
qed

lemma preconditions_pass_defined:
  "list_all (\<lambda>precond.
         list_all is_constant (arguments precond) \<and>
         0 \<le> Atom.predicate_symbol precond \<and>
         nat (Atom.predicate_symbol precond) < length (relations state) \<and>
         nat (Atom.predicate_symbol precond) < length (relations static)) preconds \<Longrightarrow>
   \<exists>b. preconditions_pass static state preconds = Inr b"
proof (induction preconds)
  case Nil
  then show ?case by auto
next
  case (Cons precond rest)
  then obtain b where "precondition_passes static state precond = Inr b"
    using precondition_passes_defined [of precond state static] by auto
  moreover from Cons obtain c where "preconditions_pass static state rest = Inr c" by auto
  ultimately show ?case by auto
qed

text \<open>
  C1. In \<open>is_ground_action_applicable\<close>, a precondition whose predicate has an empty
  relation in the state and an empty static relation never passes, whatever its negation
  flag, and the action is not reported applicable. When the action keeps its contract
  the check returns false.
\<close>

theorem ground_precondition_both_empty_unsatisfied:
  assumes "precond \<in> set (precondition action)"
    and "get_tuples_of_relation state (Atom.predicate_symbol precond) = Inr {||}"
    and "get_tuples_of_relation (static_information sg) (Atom.predicate_symbol precond) = Inr {||}"
  shows "precondition_passes (static_information sg) state precond \<noteq> Inr True \<and>
         is_ground_action_applicable sg action state \<noteq> Inr True \<and>
         (ground_preconditions_defined sg action state \<longrightarrow>
            precondition_passes (static_information sg) state precond = Inr False \<and>
            is_ground_action_applicable sg action state = Inr False)"
proof -
  have a: "precondition_passes (static_information sg) state precond \<noteq> Inr True"
    using assms(2,3) by (rule precondition_passes_both_empty)
  with assms(1) have b: "is_ground_action_applicable sg action state \<noteq> Inr True"
    unfolding is_ground_action_applicable_def by (rule preconditions_pass_not_true)
  have "precondition_passes (static_information sg) state precond = Inr False \<and>
        is_ground_action_applicable sg action state = Inr False"
    if d: "ground_preconditions_defined sg action state"
  proof -
    from d obtain r where r: "is_ground_action_applicable sg action state = Inr r"
      unfolding is_ground_action_applicable_def ground_preconditions_defined_def
      using preconditions_pass_defined by blast
    from d assms(1) have "list_all is_constant (arguments precond)"
      and "0 \<le> Atom.predicate_symbol precond"
      and "nat (Atom.predicate_symbol precond) < length (relations state)"
      and "nat (Atom.predicate_symbol precond) < length (relations (static_information sg))"
      by (auto simp: ground_preconditions_defined_def list_all_iff)
    then obtain q where q: "precondition_passes (static_information sg) state precond = Inr q"
      using precondition_passes_defined by blast
    from a b r q show ?thesis by auto
  qed
  with a b show ?thesis by blast
qed

theorem ground_precondition_both_empty_unsatisfied_witness:
  "is_ground_action_applicable
     \<lparr>static_information =
        \<lparr>relations = [\<lparr>Relation.predicate_symbol = 0, Relation.tuples = {||}\<rparr>],
         nullary_atoms = []\<rparr>,
      ground_atom = []\<rparr>
     \<lparr>action_index = 0, is_ground = True,
      precondition = [\<lparr>Atom.predicate_symbol = 0,
                       arguments = [\<lparr>index = 1, is_constant = True\<rparr>],
                       negated = True\<rparr>],
      effects = [], positive_nullary_precond = [], negative_nullary_precond = [],
      positive_nullary_effects = [], negative_nullary_effects = []\<rparr>
     \<lparr>relations = [\<lparr>Relation.predicate_symbol = 0, Relation.tuples = {||}\<rparr>],
      nullary_atoms = []\<rparr>
   = Inr False"
  using ground_precondition_both_empty_unsatisfied
    [of "\<lparr>Atom.predicate_symbol = 0, arguments = [\<lparr>index = 1, is_constant = True\<rparr>],
          negated = True\<rparr>"
        "\<lparr>action_index = 0, is_ground = True,
          precondition = [\<lparr>Atom.predicate_symbol = 0,
                       arguments = [\<lparr>index = 1, is_constant = True\<rparr>],
                       negated = True\<rparr>],
          effects = [], positive_nullary_precond = [], negative_nullary_precond = [],
          positive_nullary_effects = [], negative_nullary_effects = []\<rparr>"
        "\<lparr>relations = [\<lparr>Relation.predicate_symbol = 0, Relation.tuples = {||}\<rparr>],
          nullary_atoms = []\<rparr>"
        "\<lparr>static_information =
            \<lparr>relations = [\<lparr>Relation.predicate_symbol = 0, Relation.tuples = {||}\<rparr>],
             nullary_atoms = []\<rparr>,
          ground_atom = []\<rparr>"]
  by (simp add: get_tuples_of_relation_def ground_preconditions_defined_def)

section \<open>Nullary effects\<close>

lemma nullary_loop_length:
  "nullary_loop js eff v atoms = Inr res \<Longrightarrow> length res = length atoms"
  by (induction js arbitrary: atoms) (auto split: if_splits)

lemma nullary_loop_keeps:
  "nullary_loop js eff v atoms = Inr res \<Longrightarrow> i < length atoms \<Longrightarrow> atoms ! i = v \<Longrightarrow> res ! i = v"
proof (induction js arbitrary: atoms)
  case Nil
  then show ?case by simp
next
  case (Cons j rest)
  show ?case
  proof (cases "eff ! j")
    case True
    with Cons.prems have r: "nullary_loop rest eff v (atoms[j := v]) = Inr res" and "j < length atoms"
      by (auto split: if_splits)
    moreover have "atoms[j := v] ! i = v"
      using Cons.prems by (cases "i = j") auto
    ultimately show ?thesis using Cons.IH [of "atoms[j := v]"] Cons.prems by simp
  next
    case False
    with Cons show ?thesis by simp
  qed
qed

lemma nullary_loop_writes:
  "nullary_loop js eff v atoms = Inr res \<Longrightarrow> i \<in> set js \<Longrightarrow> eff ! i \<Longrightarrow>
     i < length res \<and> res ! i = v"
proof (induction js arbitrary: atoms)
  case Nil
  then show ?case by simp
next
  case (Cons j rest)
  show ?case
  proof (cases "i = j")
    case True
    with Cons.prems have r: "nullary_loop rest eff v (atoms[i := v]) = Inr res" and l: "i < length atoms"
      by (auto split: if_splits)
    from r l have "res ! i = v" by (intro nullary_loop_keeps [OF r]) simp_all
    moreover from r l have "i < length res" by (simp add: nullary_loop_length)
    ultimately show ?thesis by simp
  next
    case False
    with Cons.prems have "i \<in> set rest" by simp
    moreover from Cons.prems obtain atoms' where "nullary_loop rest eff v atoms' = Inr res"
      by (auto split: if_splits)
    ultimately show ?thesis using Cons.IH Cons.prems(3) by blast
  qed
qed

lemma nullary_loop_untouched:
  "nullary_loop js eff v atoms = Inr res \<Longrightarrow> \<not> (i \<in> set js \<and> eff ! i) \<Longrightarrow> res ! i = atoms ! i"
proof (induction js arbitrary: atoms)
  case Nil
  then show ?case by simp
next
  case (Cons j rest)
  show ?case
  proof (cases "eff ! j")
    case True
    with Cons.prems have r: "nullary_loop rest eff v (atoms[j := v]) = Inr res" and n: "i \<noteq> j"
      by (auto split: if_splits)
    from Cons.prems have "\<not> (i \<in> set rest \<and> eff ! i)" by auto
    with r have "res ! i = atoms[j := v] ! i" by (rule Cons.IH)
    with n show ?thesis by simp
  next
    case False
    with Cons.prems have r: "nullary_loop rest eff v atoms = Inr res" by simp
    from Cons.prems have "\<not> (i \<in> set rest \<and> eff ! i)" by auto
    with r show ?thesis by (rule Cons.IH)
  qed
qed

lemma generate_successors_nullary:
  "generate_successors sg op action state = Inr (state', sg') \<Longrightarrow>
     apply_nullary_effects action (nullary_atoms state) = Inr (nullary_atoms state')"
  by (auto simp: generate_successors_def split: sum.splits if_splits)

text \<open>
  C5. The nullary facts of a successor are computed by the loop over the negative
  nullary effects, which clears bits, followed by the loop over the positive nullary
  effects, which sets bits. Hence a nullary fact that the action both deletes and adds is
  true in the successor, while a fact that it only deletes is false.
\<close>

theorem nullary_add_after_delete:
  assumes "generate_successors sg op action state = Inr (state', sg')"
  shows "(\<exists>cleared.
            nullary_loop [0 ..< length (negative_nullary_effects action)]
              (negative_nullary_effects action) False (nullary_atoms state) = Inr cleared \<and>
            nullary_loop [0 ..< length (positive_nullary_effects action)]
              (positive_nullary_effects action) True cleared = Inr (nullary_atoms state')) \<and>
         (\<forall>i. i < length (negative_nullary_effects action) \<and> negative_nullary_effects action ! i \<and>
               i < length (positive_nullary_effects action) \<and> positive_nullary_effects action ! i
               \<longrightarrow> i < length (nullary_atoms state') \<and> nullary_atoms state' ! i) \<and>
         (\<forall>i. i < length (negative_nullary_effects action) \<and> negative_nullary_effects action ! i \<and>
               \<not> (i < length (positive_nullary_effects action) \<and> positive_nullary_effects action ! i)
               \<longrightarrow> \<not> nullary_atoms state' ! i)"
proof -
  from assms have "apply_nullary_effects action (nullary_atoms state) = Inr (nullary_atoms state')"
    by (rule generate_successors_nullary)
  then obtain cleared where
    c: "nullary_loop [0 ..< length (negative_nullary_effects action)]
          (negative_nullary_effects action) False (nullary_atoms state) = Inr cleared" and
    p: "nullary_loop [0 ..< length (positive_nullary_effects action)]
          (positive_nullary_effects action) True cleared = Inr (nullary_atoms state')"
    by (auto simp: apply_nullary_effects_def split: sum.splits)
  have "i < length (nullary_atoms state') \<and> nullary_atoms state' ! i"
    if "i < length (positive_nullary_effects action)" "positive_nullary_effects action ! i" for i
    using nullary_loop_writes [OF p, of i] that by simp
  moreover have "\<not> nullary_atoms state' ! i"
    if n: "i < length (negative_nullary_effects action)" "negative_nullary_effects action ! i"
      and np: "\<not> (i < length (positive_nullary_effects action) \<and> positive_nullary_effects action ! i)"
    for i
  proof -
    from nullary_loop_writes [OF c, of i] n have "\<not> cleared ! i" by simp
    moreover from nullary_loop_untouched [OF p, of i] np
    have "nullary_atoms state' ! i = cleared ! i" by simp
    ultimately show ?thesis by simp
  qed
  ultimately show ?thesis using c p by blast
qed

theorem nullary_add_after_delete_witness:
  "generate_successors
     \<lparr>static_information = \<lparr>relations = [], nullary_atoms = []\<rparr>, ground_atom = []\<rparr>
     \<lparr>op_index = 0, op_instantiation = []\<rparr>
     \<lparr>action_index = 0, is_ground = True, precondition = [], effects = [],
      positive_nullary_precond = [False, False], negative_nullary_precond = [False, False],
      positive_nullary_effects = [False, True], negative_nullary_effects = [True, True]\<rparr>
     \<lparr>relations = [], nullary_atoms = [True, False]\<rparr>
   = Inr (\<lparr>relations = [], nullary_atoms = [False, True]\<rparr>,
          \<lparr>static_information = \<lparr>relations = [], nullary_atoms = []\<rparr>, ground_atom = []\<rparr>)"
proof -
  have h: "generate_successors
     \<lparr>static_information = \<lparr>relations = [], nullary_atoms = []\<rparr>, ground_atom = []\<rparr>
     \<lparr>op_index = 0, op_instantiation = []\<rparr>
     \<lparr>action_index = 0, is_ground = True, precondition = [], effects = [],
      positive_nullary_precond = [False, False], negative_nullary_precond = [False, False],
      positive_nullary_effects = [False, True], negative_nullary_effects = [True, True]\<rparr>
     \<lparr>relations = [], nullary_atoms = [True, False]\<rparr>
   = Inr (\<lparr>relations = [], nullary_atoms = [False, True]\<rparr>,
          \<lparr>static_information = \<lparr>relations = [], nullary_atoms = []\<rparr>, ground_atom = []\<rparr>)"
    by (simp add: generate_successors_def apply_nullary_effects_def
          apply_ground_action_effects_def upt_rec)
  show ?thesis using h nullary_add_after_delete [OF h] by simp
qed

section \<open>Effects on relations\<close>























section \<open>The input state of a successor computation\<close>

lemma apply_lifted_effect_static:
  "apply_lifted_effect tuple eff (sg, rels) = Inr (sg1, rels1) \<Longrightarrow>
     static_information sg1 = static_information sg"
  by (auto simp: apply_lifted_effect_def tuple_to_atom_def split: sum.splits if_splits)

lemma lifted_effects_loop_static:
  "lifted_effects_loop tuple effs st = Inr st' \<Longrightarrow>
     static_information (fst st') = static_information (fst st)"
proof (induction effs arbitrary: st)
  case Nil
  then show ?case by simp
next
  case (Cons eff rest)
  then obtain st1 where a: "apply_lifted_effect tuple eff st = Inr st1"
    and l: "lifted_effects_loop tuple rest st1 = Inr st'"
    by (auto split: sum.splits)
  from a have "static_information (fst st1) = static_information (fst st)"
    using apply_lifted_effect_static [of tuple eff "fst st" "snd st" "fst st1" "snd st1"] by simp
  with Cons.IH [OF l] show ?case by simp
qed

lemma generate_successors_static:
  "generate_successors sg op action state = Inr (state', sg') \<Longrightarrow>
     static_information sg' = static_information sg"
  by (auto simp: generate_successors_def apply_lifted_action_effects_def
           split: sum.splits if_splits dest: lifted_effects_loop_static)

lemma applicable_loop_static:
  "static_information sg' = static_information sg \<Longrightarrow>
     applicable_loop sg' instantiate actions state acc = applicable_loop sg instantiate actions state acc"
  by (induction actions arbitrary: acc)
     (auto simp: is_ground_action_applicable_def split: sum.splits)

text \<open>
  C4. \<open>generate_successors\<close> returns a new state built from copies and never writes to
  the state it was given; the one object it writes to is the buffer of the generator.
  Whatever the instantiation procedure and the list of action schemas,
  \<open>get_applicable_actions\<close> on the original state gives the same result after the call
  as before it.
\<close>

theorem generate_successors_keeps_applicable_actions:
  assumes "generate_successors sg op action state = Inr (state', sg')"
  shows "get_applicable_actions sg' instantiate actions state
           = get_applicable_actions sg instantiate actions state"
  unfolding get_applicable_actions_def
  using generate_successors_static [OF assms] by (rule applicable_loop_static)

theorem generate_successors_keeps_applicable_actions_witness:
  "generate_successors
     \<lparr>static_information = \<lparr>relations = [], nullary_atoms = []\<rparr>, ground_atom = []\<rparr>
     \<lparr>op_index = 0, op_instantiation = [7]\<rparr>
     \<lparr>action_index = 0, is_ground = False, precondition = [],
      effects = [\<lparr>Atom.predicate_symbol = 0,
                  arguments = [\<lparr>index = 0, is_constant = False\<rparr>,
                               \<lparr>index = 2, is_constant = True\<rparr>],
                  negated = False\<rparr>],
      positive_nullary_precond = [], negative_nullary_precond = [],
      positive_nullary_effects = [], negative_nullary_effects = []\<rparr>
     \<lparr>relations = [\<lparr>Relation.predicate_symbol = 0, Relation.tuples = {|[1, 2]|}\<rparr>],
      nullary_atoms = []\<rparr>
   = Inr (\<lparr>relations = [\<lparr>Relation.predicate_symbol = 0, Relation.tuples = {|[7, 2], [1, 2]|}\<rparr>],
           nullary_atoms = []\<rparr>,
          \<lparr>static_information = \<lparr>relations = [], nullary_atoms = []\<rparr>, ground_atom = [7, 2]\<rparr>) \<and>
   get_applicable_actions
     \<lparr>static_information = \<lparr>relations = [], nullary_atoms = []\<rparr>, ground_atom = [7, 2]\<rparr>
     (\<lambda>static action state. Inr \<lparr>tuples = [[7]], tuple_index = [0]\<rparr>)
     [\<lparr>action_index = 0, is_ground = False, precondition = [],
       effects = [\<lparr>Atom.predicate_symbol = 0,
                   arguments = [\<lparr>index = 0, is_constant = False\<rparr>,
                                \<lparr>index = 2, is_constant = True\<rparr>],
                   negated = False\<rparr>],
       positive_nullary_precond = [], negative_nullary_precond = [],
       positive_nullary_effects = [], negative_nullary_effects = []\<rparr>]
     \<lparr>relations = [\<lparr>Relation.predicate_symbol = 0, Relation.tuples = {|[1, 2]|}\<rparr>],
      nullary_atoms = []\<rparr>
   = Inr [\<lparr>op_index = 0, op_instantiation = [7]\<rparr>]"
proof -
  have h: "generate_successors
     \<lparr>static_information = \<lparr>relations = [], nullary_atoms = []\<rparr>, ground_atom = []\<rparr>
     \<lparr>op_index = 0, op_instantiation = [7]\<rparr>
     \<lparr>action_index = 0, is_ground = False, precondition = [],
      effects = [\<lparr>Atom.predicate_symbol = 0,
                  arguments = [\<lparr>index = 0, is_constant = False\<rparr>,
                               \<lparr>index = 2, is_constant = True\<rparr>],
                  negated = False\<rparr>],
      positive_nullary_precond = [], negative_nullary_precond = [],
      positive_nullary_effects = [], negative_nullary_effects = []\<rparr>
     \<lparr>relations = [\<lparr>Relation.predicate_symbol = 0, Relation.tuples = {|[1, 2]|}\<rparr>],
      nullary_atoms = []\<rparr>
   = Inr (\<lparr>relations = [\<lparr>Relation.predicate_symbol = 0, Relation.tuples = {|[7, 2], [1, 2]|}\<rparr>],
           nullary_atoms = []\<rparr>,
          \<lparr>static_information = \<lparr>relations = [], nullary_atoms = []\<rparr>, ground_atom = [7, 2]\<rparr>)"
    by (simp add: generate_successors_def apply_nullary_effects_def
          apply_lifted_action_effects_def apply_lifted_effect_def tuple_to_atom_def
          relation_of_effect_def)
  have g: "get_applicable_actions
     \<lparr>static_information = \<lparr>relations = [], nullary_atoms = []\<rparr>, ground_atom = []\<rparr>
     (\<lambda>static action state. Inr \<lparr>tuples = [[7]], tuple_index = [0]\<rparr>)
     [\<lparr>action_index = 0, is_ground = False, precondition = [],
       effects = [\<lparr>Atom.predicate_symbol = 0,
                   arguments = [\<lparr>index = 0, is_constant = False\<rparr>,
                                \<lparr>index = 2, is_constant = True\<rparr>],
                   negated = False\<rparr>],
       positive_nullary_precond = [], negative_nullary_precond = [],
       positive_nullary_effects = [], negative_nullary_effects = []\<rparr>]
     \<lparr>relations = [\<lparr>Relation.predicate_symbol = 0, Relation.tuples = {|[1, 2]|}\<rparr>],
      nullary_atoms = []\<rparr>
   = Inr [\<lparr>op_index = 0, op_instantiation = [7]\<rparr>]"
    by (simp add: get_applicable_actions_def is_trivially_inapplicable_def
          ordered_tuple_of_def compute_map_indices_to_table_positions_def
          index_is_variable_def order_tuple_by_free_variable_order_def upt_rec)
  show ?thesis
    using h g generate_successors_keeps_applicable_actions [OF h,
      of "\<lambda>static action state. Inr \<lparr>tuples = [[7]], tuple_index = [0]\<rparr>"
         "[\<lparr>action_index = 0, is_ground = False, precondition = [],
       effects = [\<lparr>Atom.predicate_symbol = 0,
                   arguments = [\<lparr>index = 0, is_constant = False\<rparr>,
                                \<lparr>index = 2, is_constant = True\<rparr>],
                   negated = False\<rparr>],
       positive_nullary_precond = [], negative_nullary_precond = [],
       positive_nullary_effects = [], negative_nullary_effects = []\<rparr>]"]
    by simp
qed

section \<open>Canonical instantiations\<close>

lemma compute_map_fold:
  "fold (\<lambda>j (fvi, mp).
           if index_is_variable t j
           then (fvi @ [tuple_index t ! j], mp @ [int j])
           else (fvi, mp)) js (a, b)
     = (a @ map (\<lambda>j. tuple_index t ! j) (filter (index_is_variable t) js),
        b @ map int (filter (index_is_variable t) js))"
  by (induction js arbitrary: a b) auto

lemma compute_map_indices_eq:
  "compute_map_indices_to_table_positions t [] []
     = (map (\<lambda>j. tuple_index t ! j) (filter (index_is_variable t) [0 ..< length (tuple_index t)]),
        map int (filter (index_is_variable t) [0 ..< length (tuple_index t)]))"
  by (simp add: compute_map_indices_to_table_positions_def compute_map_fold)

lemma order_loop_length:
  "order_loop js fvi mp twc ordered = Inr res \<Longrightarrow> length res = length ordered"
  by (induction js arbitrary: ordered) (auto simp: Let_def split: if_splits)

lemma order_loop_untouched:
  "order_loop js fvi mp twc ordered = Inr res \<Longrightarrow> \<forall>i \<in> set js. fvi ! i \<noteq> int s \<Longrightarrow>
     res ! s = ordered ! s"
proof (induction js arbitrary: ordered)
  case Nil
  then show ?case by simp
next
  case (Cons j rest)
  from Cons.prems(1) have b: "0 \<le> fvi ! j"
    and r: "order_loop rest fvi mp twc (ordered[nat (fvi ! j) := twc ! nat (mp ! j)]) = Inr res"
    by (auto simp: Let_def split: if_splits)
  from Cons.prems(2) have "\<forall>i \<in> set rest. fvi ! i \<noteq> int s" by simp
  with r have "res ! s = ordered[nat (fvi ! j) := twc ! nat (mp ! j)] ! s" by (rule Cons.IH)
  moreover from Cons.prems(2) b have "nat (fvi ! j) \<noteq> s" by auto
  ultimately show ?case by simp
qed

lemma order_loop_append:
  "order_loop (xs @ ys) fvi mp twc ordered
     = (case order_loop xs fvi mp twc ordered of
          Inl e \<Rightarrow> Inl e
        | Inr mid \<Rightarrow> order_loop ys fvi mp twc mid)"
  by (induction xs arbitrary: ordered) (auto simp: Let_def)

lemma order_loop_last_write:
  assumes "order_loop (xs @ i # ys) fvi mp twc ordered = Inr res"
    and "\<forall>i' \<in> set ys. fvi ! i' \<noteq> fvi ! i"
  shows "res ! nat (fvi ! i) = twc ! nat (mp ! i)"
proof -
  from assms(1) obtain mid where "order_loop (i # ys) fvi mp twc mid = Inr res"
    by (auto simp: order_loop_append split: sum.splits)
  then have b: "0 \<le> fvi ! i" "nat (fvi ! i) < length mid"
    and r: "order_loop ys fvi mp twc (mid[nat (fvi ! i) := twc ! nat (mp ! i)]) = Inr res"
    by (auto simp: Let_def split: if_splits)
  from assms(2) b have "\<forall>i' \<in> set ys. fvi ! i' \<noteq> int (nat (fvi ! i))" by simp
  with r have "res ! nat (fvi ! i) = mid[nat (fvi ! i) := twc ! nat (mp ! i)] ! nat (fvi ! i)"
    by (rule order_loop_untouched)
  with b show ?thesis by simp
qed

lemma ordered_tuple_of_run:
  "ordered_tuple_of t row
     = order_loop [0 ..< length (filter (index_is_variable t) [0 ..< length (tuple_index t)])]
         (map (\<lambda>j. tuple_index t ! j) (filter (index_is_variable t) [0 ..< length (tuple_index t)]))
         (map int (filter (index_is_variable t) [0 ..< length (tuple_index t)]))
         row
         (replicate (length (filter (index_is_variable t) [0 ..< length (tuple_index t)])) 0)"
  by (simp add: ordered_tuple_of_def compute_map_indices_eq
        order_tuple_by_free_variable_order_def)

lemma ordered_tuple_length:
  "ordered_tuple_of t row = Inr ordered \<Longrightarrow>
     length ordered = length (filter (index_is_variable t) [0 ..< length (tuple_index t)])"
  unfolding ordered_tuple_of_run by (drule order_loop_length) simp

lemma ordered_tuple_last_column:
  assumes "ordered_tuple_of t row = Inr ordered"
    and p: "p < length (tuple_index t)" "index_is_variable t p"
    and later: "\<forall>p'. p < p' \<and> p' < length (tuple_index t) \<and> index_is_variable t p'
                     \<longrightarrow> tuple_index t ! p' \<noteq> tuple_index t ! p"
  shows "ordered ! nat (tuple_index t ! p) = row ! p"
proof -
  let ?n = "length (tuple_index t)"
  let ?vs = "filter (index_is_variable t) [0 ..< ?n]"
  let ?k = "length ?vs"
  let ?fvi = "map (\<lambda>j. tuple_index t ! j) ?vs"
  let ?mp = "map int ?vs"
  from assms(1) have run: "order_loop [0 ..< ?k] ?fvi ?mp row (replicate ?k 0) = Inr ordered"
    by (simp only: ordered_tuple_of_run)
  have sorted: "sorted_wrt (<) ?vs" by (simp add: sorted_wrt_filter)
  from p have "p \<in> set ?vs" by simp
  then obtain i where i: "i < ?k" "?vs ! i = p" unfolding in_set_conv_nth by blast
  then have split: "[0 ..< ?k] = [0 ..< i] @ i # [Suc i ..< ?k]"
    using upt_add_eq_append [of 0 i "?k - i"] by (simp add: upt_conv_Cons)
  have "\<forall>i' \<in> set [Suc i ..< ?k]. ?fvi ! i' \<noteq> ?fvi ! i"
  proof
    fix i' assume "i' \<in> set [Suc i ..< ?k]"
    then have i': "i < i'" "i' < ?k" by auto
    with sorted i have "p < ?vs ! i'" by (auto dest: sorted_wrt_nth_less)
    moreover from i' have "?vs ! i' \<in> set ?vs" by (simp only: nth_mem)
    then have "?vs ! i' < ?n" "index_is_variable t (?vs ! i')" by auto
    ultimately have "tuple_index t ! (?vs ! i') \<noteq> tuple_index t ! p" using later by blast
    with i i' show "?fvi ! i' \<noteq> ?fvi ! i" by simp
  qed
  with run have "ordered ! nat (?fvi ! i) = row ! nat (?mp ! i)"
    unfolding split by (rule order_loop_last_write)
  with i show ?thesis by simp
qed

lemma order_loop_defined:
  "\<forall>i \<in> set js. i < length mp \<and> i < length fvi \<and> 0 \<le> mp ! i \<and> nat (mp ! i) < length twc \<and>
                  0 \<le> fvi ! i \<and> nat (fvi ! i) < length ordered \<Longrightarrow>
     \<exists>res. order_loop js fvi mp twc ordered = Inr res"
proof (induction js arbitrary: ordered)
  case Nil
  then show ?case by simp
next
  case (Cons j rest)
  let ?o = "ordered[nat (fvi ! j) := twc ! nat (mp ! j)]"
  from Cons.prems
  have "\<forall>i \<in> set rest. i < length mp \<and> i < length fvi \<and> 0 \<le> mp ! i \<and> nat (mp ! i) < length twc \<and>
                  0 \<le> fvi ! i \<and> nat (fvi ! i) < length ?o"
    by simp
  then have "\<exists>res. order_loop rest fvi mp twc ?o = Inr res" by (rule Cons.IH)
  with Cons.prems show ?case by (simp add: Let_def)
qed

lemma ordered_tuple_of_defined:
  assumes "length row = length (tuple_index t)" and "slots_covered t"
  shows "\<exists>ordered. ordered_tuple_of t row = Inr ordered"
proof -
  let ?n = "length (tuple_index t)"
  let ?vs = "filter (index_is_variable t) [0 ..< ?n]"
  let ?k = "length ?vs"
  let ?fvi = "map (\<lambda>j. tuple_index t ! j) ?vs"
  let ?mp = "map int ?vs"
  have "\<forall>i \<in> set [0 ..< ?k]. i < length ?mp \<and> i < length ?fvi \<and> 0 \<le> ?mp ! i \<and>
          nat (?mp ! i) < length row \<and> 0 \<le> ?fvi ! i \<and>
          nat (?fvi ! i) < length (replicate ?k (0::int))"
  proof
    fix i assume "i \<in> set [0 ..< ?k]"
    then have i: "i < ?k" by simp
    then have "?vs ! i \<in> set ?vs" by (simp only: nth_mem)
    then have v: "?vs ! i < ?n" "index_is_variable t (?vs ! i)" by auto
    with assms(2) have "nat (tuple_index t ! (?vs ! i)) < ?k"
      by (simp add: slots_covered_def list_all_iff)
    moreover from v have "0 \<le> tuple_index t ! (?vs ! i)" by (simp add: index_is_variable_def)
    ultimately show "i < length ?mp \<and> i < length ?fvi \<and> 0 \<le> ?mp ! i \<and>
          nat (?mp ! i) < length row \<and> 0 \<le> ?fvi ! i \<and>
          nat (?fvi ! i) < length (replicate ?k (0::int))"
      using i v assms(1) by simp
  qed
  then have "\<exists>res. order_loop [0 ..< ?k] ?fvi ?mp row (replicate ?k 0) = Inr res"
    by (rule order_loop_defined)
  then show ?thesis by (simp only: ordered_tuple_of_run)
qed

lemma last_column_of_slot:
  assumes "p < length (tuple_index t)" and "index_is_variable t p"
  obtains m where "m < length (tuple_index t)" and "index_is_variable t m"
    and "tuple_index t ! m = tuple_index t ! p"
    and "\<forall>p'. m < p' \<and> p' < length (tuple_index t) \<and> index_is_variable t p'
               \<longrightarrow> tuple_index t ! p' \<noteq> tuple_index t ! m"
proof -
  let ?S = "{q. q < length (tuple_index t) \<and> index_is_variable t q \<and>
                tuple_index t ! q = tuple_index t ! p}"
  have fin: "finite ?S" by simp
  from assms have ne: "?S \<noteq> {}" by auto
  from Max_in [OF fin ne] have m: "Max ?S \<in> ?S" .
  have "tuple_index t ! p' \<noteq> tuple_index t ! (Max ?S)"
    if "Max ?S < p'" "p' < length (tuple_index t)" "index_is_variable t p'" for p'
  proof
    assume "tuple_index t ! p' = tuple_index t ! (Max ?S)"
    with m that have "p' \<in> ?S" by simp
    then have "p' \<le> Max ?S" using fin by (rule Max_ge [rotated])
    with that(1) show False by simp
  qed
  then have "\<forall>p'. Max ?S < p' \<and> p' < length (tuple_index t) \<and> index_is_variable t p'
               \<longrightarrow> tuple_index t ! p' \<noteq> tuple_index t ! (Max ?S)"
    by blast
  moreover from m have "Max ?S < length (tuple_index t)" "index_is_variable t (Max ?S)"
    "tuple_index t ! (Max ?S) = tuple_index t ! p" by simp_all
  ultimately show ?thesis using that by blast
qed

lemma one_value_per_slotD:
  assumes "one_value_per_slot t row"
    and "a < length (tuple_index t)" "b < length (tuple_index t)"
    and "index_is_variable t a" "index_is_variable t b"
    and "tuple_index t ! a = tuple_index t ! b"
  shows "row ! a = row ! b"
proof -
  from assms(1)
  have "\<forall>p \<in> set [0 ..< length (tuple_index t)]. \<forall>p' \<in> set [0 ..< length (tuple_index t)].
          index_is_variable t p \<and> index_is_variable t p' \<and>
          tuple_index t ! p = tuple_index t ! p' \<longrightarrow> row ! p = row ! p'"
    unfolding one_value_per_slot_def list_all_iff .
  moreover from assms(2) have "a \<in> set [0 ..< length (tuple_index t)]" by simp
  moreover from assms(3) have "b \<in> set [0 ..< length (tuple_index t)]" by simp
  ultimately have "index_is_variable t a \<and> index_is_variable t b \<and>
          tuple_index t ! a = tuple_index t ! b \<longrightarrow> row ! a = row ! b"
    by blast
  with assms(4-6) show ?thesis by blast
qed

text \<open>
  C6. Canonicalization writes a row of a join table into a binding indexed by slot
  id, whatever the order of the columns: the binding has one entry per variable column,
  constant columns are skipped, and for every variable column at position \<open>p\<close> with
  slot id \<open>s\<close> the binding has \<open>ordered[s] = row[p]\<close>. It returns whenever the row is
  as long as the column list and the slot ids are positions of the binding. The table
  with columns \<open>[v1, v0]\<close> and row \<open>[5, 3]\<close> gives the binding \<open>[3, 5]\<close>.
\<close>

theorem ordered_tuple_of_slot_order:
  "(length row = length (tuple_index t) \<and> slots_covered t \<longrightarrow>
      (\<exists>ordered. ordered_tuple_of t row = Inr ordered)) \<and>
   (\<forall>ordered. ordered_tuple_of t row = Inr ordered \<and> one_value_per_slot t row \<longrightarrow>
      length ordered
        = length (filter (index_is_variable t) [0 ..< length (tuple_index t)]) \<and>
      (\<forall>p. p < length (tuple_index t) \<and> index_is_variable t p
            \<longrightarrow> ordered ! nat (tuple_index t ! p) = row ! p)) \<and>
   ordered_tuple_of \<lparr>tuples = [[5, 3]], tuple_index = [1, 0]\<rparr> [5, 3] = Inr [3, 5]"
proof -
  have "length ordered
          = length (filter (index_is_variable t) [0 ..< length (tuple_index t)]) \<and>
        (\<forall>p. p < length (tuple_index t) \<and> index_is_variable t p
              \<longrightarrow> ordered ! nat (tuple_index t ! p) = row ! p)"
    if run: "ordered_tuple_of t row = Inr ordered" and one: "one_value_per_slot t row"
    for ordered
  proof -
    have "ordered ! nat (tuple_index t ! p) = row ! p"
      if p: "p < length (tuple_index t)" "index_is_variable t p" for p
    proof -
      from p obtain m where
        m: "m < length (tuple_index t)" "index_is_variable t m"
           "tuple_index t ! m = tuple_index t ! p"
           "\<forall>p'. m < p' \<and> p' < length (tuple_index t) \<and> index_is_variable t p'
                  \<longrightarrow> tuple_index t ! p' \<noteq> tuple_index t ! m"
        by (rule last_column_of_slot)
      from run m(1,2,4) have "ordered ! nat (tuple_index t ! m) = row ! m"
        by (rule ordered_tuple_last_column)
      moreover from one m(1) p(1) m(2) p(2) m(3) have "row ! m = row ! p"
        by (rule one_value_per_slotD)
      ultimately show ?thesis by (simp only: m(3))
    qed
    with ordered_tuple_length [OF run] show ?thesis by blast
  qed
  moreover have "ordered_tuple_of \<lparr>tuples = [[5, 3]], tuple_index = [1, 0]\<rparr> [5, 3] = Inr [3, 5]"
    by (simp add: ordered_tuple_of_def compute_map_indices_to_table_positions_def
          index_is_variable_def order_tuple_by_free_variable_order_def upt_rec)
  ultimately show ?thesis using ordered_tuple_of_defined by blast
qed

theorem ordered_tuple_of_slot_order_witness:
  "length [9, 5, 3 :: int] = length (tuple_index \<lparr>tuples = [[9, 5, 3]], tuple_index = [- 3, 1, 0]\<rparr>) \<and>
   slots_covered \<lparr>tuples = [[9, 5, 3]], tuple_index = [- 3, 1, 0]\<rparr> \<and>
   one_value_per_slot \<lparr>tuples = [[9, 5, 3]], tuple_index = [- 3, 1, 0]\<rparr> [9, 5, 3] \<and>
   ordered_tuple_of \<lparr>tuples = [[9, 5, 3]], tuple_index = [- 3, 1, 0]\<rparr> [9, 5, 3] = Inr [3, 5]"
proof -
  have h: "ordered_tuple_of \<lparr>tuples = [[9, 5, 3]], tuple_index = [- 3, 1, 0]\<rparr> [9, 5, 3] = Inr [3, 5]"
    by (simp add: ordered_tuple_of_def compute_map_indices_to_table_positions_def
          index_is_variable_def order_tuple_by_free_variable_order_def upt_rec)
  have c: "slots_covered \<lparr>tuples = [[9, 5, 3]], tuple_index = [- 3, 1, 0]\<rparr>"
    by (simp add: slots_covered_def index_is_variable_def upt_rec)
  have o: "one_value_per_slot \<lparr>tuples = [[9, 5, 3]], tuple_index = [- 3, 1, 0]\<rparr> [9, 5, 3]"
    by (simp add: one_value_per_slot_def index_is_variable_def upt_rec)
  show ?thesis
    using h c o ordered_tuple_of_slot_order
      [of "[9, 5, 3]" "\<lparr>tuples = [[9, 5, 3]], tuple_index = [- 3, 1, 0]\<rparr>"]
    by simp
qed

section \<open>Unknown heuristic names\<close>

text \<open>
  C9 (as stated, refuted). For a name that is not a known method the factory returns
  the null pointer.
\<close>

theorem new_heuristic_unknown_is_nullptr:
  "new_heuristic ''astar'' = (''Creating search factory...'', nullptr)"
  by (simp add: new_heuristic_def to_upper_def)

text \<open>
  C9 (amended). For every name that is neither \<open>blind\<close> nor \<open>goalcount\<close>, compared
  without regard to case, the factory prints its line and returns the null pointer.
\<close>

theorem new_heuristic_unknown:
  "\<not> iequals method ''blind'' \<Longrightarrow> \<not> iequals method ''goalcount'' \<Longrightarrow>
     new_heuristic method = (''Creating search factory...'', nullptr)"
  by (simp add: new_heuristic_def)

theorem new_heuristic_unknown_witness:
  "\<not> iequals ''hmax'' ''blind'' \<and> \<not> iequals ''hmax'' ''goalcount'' \<and>
   new_heuristic ''hmax'' = (''Creating search factory...'', nullptr)"
proof -
  have h1: "\<not> iequals ''hmax'' ''blind''" by (simp add: to_upper_def)
  have h2: "\<not> iequals ''hmax'' ''goalcount''" by (simp add: to_upper_def)
  show ?thesis using h1 h2 new_heuristic_unknown [OF h1 h2] by simp
qed

end
